theory Spec2Isabelle
  imports Main "HOL-Library.Word"
begin

section \<open>The ConfidentialVotingAutoRegister contract\<close>

text \<open>
  The Solidity contract \<^verbatim>\<open>ConfidentialVotingAutoRegister\<close> (the second document of
  \<^verbatim>\<open>src/hardhat.config.ts\<close>, lines 95--213) as a state machine: the storage is a
  record, every external function is a function from the storage before the call to an
  outcome, and a \<^verbatim>\<open>require\<close> that fails is a branch of the function.
\<close>

subsection \<open>Solidity value types\<close>

type_synonym address = "160 word"
type_synonym uint256 = "256 word"
type_synonym bytes = "8 word list"
type_synonym externalEuint8 = "256 word"

subsection \<open>The encryption capability\<close>

text \<open>
  The library \<^verbatim>\<open>@fhevm/solidity/lib/FHE.sol\<close> and the access-control list behind it
  are an external dependency of the contract. A ciphertext handle is the term that
  produced it: the null handle of a storage slot that was never written, the trivial
  encryption of a constant, a verified external input (with the plaintext bound to it),
  or the result of an operation on two handles. Equal terms are equal handles and
  different terms are different handles. The types \<^verbatim>\<open>euint8\<close> and \<^verbatim>\<open>ebool\<close> are both
  handles.
\<close>

datatype op = FheAdd | FheSub | FheMul | FheEq | FheOr

datatype handle =
    Null
  | Trivial "8 word"
  | Input externalEuint8 "8 word"
  | Result op handle handle

type_synonym euint8 = handle
type_synonym ebool = handle

text \<open>
  Modelled from the spec: the plaintext of a handle (section 6,
  \<^verbatim>\<open>combine(op, EncryptedValue, EncryptedValue)\<close> for add, sub, mul, eq and or, and the
  glossary: the decrypted value of a homomorphic combination equals the operation applied
  to the plaintexts), over the 8-bit unsigned domain with wrap-around (section 4.2 c).
  A boolean is 0 or 1.
\<close>

fun plain :: "handle \<Rightarrow> 8 word" where
  "plain Null = 0"
| "plain (Trivial w) = w"
| "plain (Input h w) = w"
| "plain (Result FheAdd a b) = plain a + plain b"
| "plain (Result FheSub a b) = plain a - plain b"
| "plain (Result FheMul a b) = plain a * plain b"
| "plain (Result FheEq a b) = (if plain a = plain b then 1 else 0)"
| "plain (Result FheOr a b) = (if plain a \<noteq> 0 \<or> plain b \<noteq> 0 then 1 else 0)"

text \<open>
  Modelled from the spec: the access rights the capability keeps (section 6:
  \<^verbatim>\<open>grantAccess\<close> and \<^verbatim>\<open>makePublic\<close> are permission bookkeeping, and the contract must
  be granted access to its own totals after each mutation to retain its own future compute
  rights; section 4.2 e). \<open>acl\<close> holds the persistent grants, a handle with the account
  that may use it; \<open>decryptable\<close> the handles anyone may decrypt; \<open>transient\<close> the
  handles the contract may use until the current transaction ends, which are those it
  created or verified in this transaction.
\<close>

record capability =
  acl :: "(handle \<times> address) set"
  decryptable :: "handle set"
  transient :: "handle set"

text \<open>
  A failing \<^verbatim>\<open>require\<close> reverts with its message; a rejected attestation reverts
  inside the capability; an operation on a handle the contract has no access to reverts
  with \<open>ACLNotAllowed\<close>, a grant on such a handle with \<open>SenderNotAllowed\<close>; checked
  arithmetic that overflows panics.
\<close>

datatype error = Require string | InvalidCiphertext | ACLNotAllowed | SenderNotAllowed | Panic

text \<open>The names the specification gives to the failures, each standing for the message of
  the \<^verbatim>\<open>require\<close> that raises it.\<close>

abbreviation Unauthorized :: error where
  "Unauthorized \<equiv> Require ''Only admin''"
abbreviation VotingClosed :: error where
  "VotingClosed \<equiv> Require ''Voting closed''"
abbreviation InvalidConfiguration :: error where
  "InvalidConfiguration \<equiv> Require ''Duration must be positive''"
abbreviation AlreadyInitialized :: error where
  "AlreadyInitialized \<equiv> Require ''Already initialized''"
abbreviation InvalidArgument :: error where
  "InvalidArgument \<equiv> Require ''Zero address''"
abbreviation AlreadyRegistered :: error where
  "AlreadyRegistered \<equiv> Require ''Already registered''"
abbreviation NotInitialized :: error where
  "NotInitialized \<equiv> Require ''Contract not initialized''"
abbreviation AlreadyVoted :: error where
  "AlreadyVoted \<equiv> Require ''Already voted''"

text \<open>
  Modelled from the spec: the calls of the library, which is not part of the repository
  (section 6: \<^verbatim>\<open>combine\<close>, \<^verbatim>\<open>grantAccess\<close>, \<^verbatim>\<open>makePublic\<close>, and the compute rights of
  the contract on its own totals). \<open>this\<close> is the address of the calling contract. A
  trivial encryption, a verified input and the result of an operation are usable by the
  contract for the rest of the transaction. An operation replaces a null operand by a
  trivial encryption of zero and then requires access to both operands. A grant requires
  access to the handle it grants.
\<close>

definition isAllowed :: "address \<Rightarrow> capability \<Rightarrow> handle \<Rightarrow> bool" where
  "isAllowed this c h = (h \<in> transient c \<or> (h, this) \<in> acl c)"

definition allowTransient :: "handle \<Rightarrow> capability \<Rightarrow> capability" where
  "allowTransient h c = c\<lparr>transient := insert h (transient c)\<rparr>"

definition FHE_asEuint8 :: "8 word \<Rightarrow> capability \<Rightarrow> handle \<times> capability" where
  "FHE_asEuint8 w c = (Trivial w, allowTransient (Trivial w) c)"

definition operand :: "handle \<Rightarrow> capability \<Rightarrow> handle \<times> capability" where
  "operand a c = (if a = Null then FHE_asEuint8 0 c else (a, c))"

definition FHE_op :: "op \<Rightarrow> address \<Rightarrow> handle \<Rightarrow> handle \<Rightarrow> capability \<Rightarrow> error + handle \<times> capability" where
  "FHE_op f this a b c =
     (case operand a c of (a', c1) \<Rightarrow>
      case operand b c1 of (b', c2) \<Rightarrow>
        if \<not> isAllowed this c2 a' then Inl ACLNotAllowed
        else if \<not> isAllowed this c2 b' then Inl ACLNotAllowed
        else Inr (Result f a' b', allowTransient (Result f a' b') c2))"

abbreviation FHE_add :: "address \<Rightarrow> handle \<Rightarrow> handle \<Rightarrow> capability \<Rightarrow> error + handle \<times> capability" where
  "FHE_add \<equiv> FHE_op FheAdd"
abbreviation FHE_sub :: "address \<Rightarrow> handle \<Rightarrow> handle \<Rightarrow> capability \<Rightarrow> error + handle \<times> capability" where
  "FHE_sub \<equiv> FHE_op FheSub"
abbreviation FHE_mul :: "address \<Rightarrow> handle \<Rightarrow> handle \<Rightarrow> capability \<Rightarrow> error + handle \<times> capability" where
  "FHE_mul \<equiv> FHE_op FheMul"
abbreviation FHE_eq :: "address \<Rightarrow> handle \<Rightarrow> handle \<Rightarrow> capability \<Rightarrow> error + handle \<times> capability" where
  "FHE_eq \<equiv> FHE_op FheEq"
abbreviation FHE_or :: "address \<Rightarrow> handle \<Rightarrow> handle \<Rightarrow> capability \<Rightarrow> error + handle \<times> capability" where
  "FHE_or \<equiv> FHE_op FheOr"

definition FHE_allow :: "address \<Rightarrow> handle \<Rightarrow> address \<Rightarrow> capability \<Rightarrow> error + capability" where
  "FHE_allow this h account c =
     (if \<not> isAllowed this c h then Inl SenderNotAllowed
      else Inr (c\<lparr>acl := insert (h, account) (acl c)\<rparr>))"

definition FHE_allowThis :: "address \<Rightarrow> handle \<Rightarrow> capability \<Rightarrow> error + capability" where
  "FHE_allowThis this h c = FHE_allow this h this c"

definition FHE_makePubliclyDecryptable :: "address \<Rightarrow> handle \<Rightarrow> capability \<Rightarrow> error + capability" where
  "FHE_makePubliclyDecryptable this h c =
     (if \<not> isAllowed this c h then Inl SenderNotAllowed
      else Inr (c\<lparr>decryptable := insert h (decryptable c)\<rparr>))"

text \<open>
  The input verifier behind \<^verbatim>\<open>FHE.fromExternal\<close> is a parameter of the model: given
  the external handle, the attestation and the calling account it yields the plaintext
  bound to the handle, or nothing when the proof does not validate, in which case the
  call reverts.
\<close>

type_synonym verifier = "externalEuint8 \<Rightarrow> bytes \<Rightarrow> address \<Rightarrow> 8 word option"

definition FHE_fromExternal ::
  "verifier \<Rightarrow> address \<Rightarrow> externalEuint8 \<Rightarrow> bytes \<Rightarrow> capability \<Rightarrow> (handle \<times> capability) option" where
  "FHE_fromExternal ver msg_sender h attestation c =
     (case ver h attestation msg_sender of
        None \<Rightarrow> None
      | Some w \<Rightarrow> Some (Input h w, allowTransient (Input h w) c))"

definition andThen :: "error + 'a \<Rightarrow> ('a \<Rightarrow> error + 'b) \<Rightarrow> error + 'b" where
  "andThen m k = (case m of Inl e \<Rightarrow> Inl e | Inr x \<Rightarrow> k x)"

subsection \<open>Storage, events and outcomes\<close>

datatype event =
    VoterRegistered address bytes
  | VoteCast address bytes
  | TallyAccessGranted address bytes

text \<open>The storage of the contract, the address it is deployed at, the events it has
  emitted and the state of the capability.\<close>

record contract =
  thisAddress :: address
  admin :: address
  totalYesVotes :: euint8
  totalNoVotes :: euint8
  votingEndTime :: uint256
  initialized :: bool
  isRegistered :: "address \<Rightarrow> bool"
  hasVoted :: "address \<Rightarrow> bool"
  events :: "event list"
  fhe :: capability

text \<open>
  The body of a function runs on the storage and either returns, with the storage it
  wrote, or reverts, at the storage it had written up to that point.
\<close>

datatype result = Returned contract | Reverted error contract

text \<open>
  A call commits the storage of a body that returned and discards everything a
  reverted body wrote (storage, events and permissions alike).
\<close>

datatype receipt = Success | Failure error

definition transact :: "(contract \<Rightarrow> result) \<Rightarrow> contract \<Rightarrow> receipt \<times> contract" where
  "transact f s = (case f s of Returned s' \<Rightarrow> (Success, s') | Reverted e _ \<Rightarrow> (Failure e, s))"

text \<open>When a transaction ends, the transient permissions end with it.\<close>

definition endTransaction :: "contract \<Rightarrow> contract" where
  "endTransaction s = s\<lparr>fhe := (fhe s)\<lparr>transient := {}\<rparr>\<rparr>"

subsection \<open>Modifiers and constructor\<close>

definition onlyAdmin :: "address \<Rightarrow> (contract \<Rightarrow> result) \<Rightarrow> contract \<Rightarrow> result" where
  "onlyAdmin msg_sender body s =
     (if msg_sender = admin s then body s else Reverted (Require ''Only admin'') s)"

definition votingOpen :: "uint256 \<Rightarrow> (contract \<Rightarrow> result) \<Rightarrow> contract \<Rightarrow> result" where
  "votingOpen block_timestamp body s =
     (if block_timestamp < votingEndTime s then body s else Reverted (Require ''Voting closed'') s)"

text \<open>The constructor runs at the address \<open>this\<close> the contract is deployed at; no grant
  exists yet on any handle.\<close>

definition constructor :: "address \<Rightarrow> address \<Rightarrow> uint256 \<Rightarrow> uint256 \<Rightarrow> error + contract" where
  "constructor this msg_sender block_timestamp durationInSeconds =
     (if \<not> durationInSeconds > 0 then Inl (Require ''Duration must be positive'')
      else if 2 ^ 256 \<le> unat block_timestamp + unat durationInSeconds then Inl Panic
      else Inr \<lparr>thisAddress = this,
                admin = msg_sender,
                totalYesVotes = Null,
                totalNoVotes = Null,
                votingEndTime = block_timestamp + durationInSeconds,
                initialized = False,
                isRegistered = (\<lambda>_. False),
                hasVoted = (\<lambda>_. False),
                events = [],
                fhe = \<lparr>acl = {}, decryptable = {}, transient = {}\<rparr>\<rparr>)"

subsection \<open>External functions\<close>

definition init_body :: "contract \<Rightarrow> result" where
  "init_body s =
     (if \<not> \<not> initialized s then Reverted (Require ''Already initialized'') s
      else case FHE_asEuint8 0 (fhe s) of (zeroYes, c1) \<Rightarrow>
           case FHE_asEuint8 0 c1 of (zeroNo, c2) \<Rightarrow>
             Returned (s\<lparr>totalYesVotes := zeroYes,
                          totalNoVotes := zeroNo,
                          initialized := True,
                          fhe := c2\<rparr>))"

definition init :: "address \<Rightarrow> contract \<Rightarrow> result" where
  "init msg_sender = onlyAdmin msg_sender init_body"

definition registerVoter_body :: "address \<Rightarrow> bytes \<Rightarrow> contract \<Rightarrow> result" where
  "registerVoter_body voter extraData s =
     (if \<not> voter \<noteq> 0 then Reverted (Require ''Zero address'') s
      else if \<not> \<not> isRegistered s voter then Reverted (Require ''Already registered'') s
      else Returned (s\<lparr>isRegistered := (isRegistered s)(voter := True),
                       events := events s @ [VoterRegistered voter extraData]\<rparr>))"

definition registerVoter :: "address \<Rightarrow> address \<Rightarrow> bytes \<Rightarrow> contract \<Rightarrow> result" where
  "registerVoter msg_sender voter extraData = onlyAdmin msg_sender (registerVoter_body voter extraData)"

definition allowTallyAccess_body :: "address \<Rightarrow> bytes \<Rightarrow> contract \<Rightarrow> result" where
  "allowTallyAccess_body viewer extraData s =
     (if \<not> viewer \<noteq> 0 then Reverted (Require ''Zero address'') s
      else case FHE_allow (thisAddress s) (totalYesVotes s) viewer (fhe s) of
             Inl e \<Rightarrow> Reverted e s
           | Inr c1 \<Rightarrow>
              (case FHE_allow (thisAddress s) (totalNoVotes s) viewer c1 of
                 Inl e \<Rightarrow> Reverted e (s\<lparr>fhe := c1\<rparr>)
               | Inr c2 \<Rightarrow>
                  Returned (s\<lparr>fhe := c2,
                              events := events s @ [TallyAccessGranted viewer extraData]\<rparr>)))"

definition allowTallyAccess :: "address \<Rightarrow> address \<Rightarrow> bytes \<Rightarrow> contract \<Rightarrow> result" where
  "allowTallyAccess msg_sender viewer extraData =
     onlyAdmin msg_sender (allowTallyAccess_body viewer extraData)"

definition makeTallyPublic_body :: "contract \<Rightarrow> result" where
  "makeTallyPublic_body s =
     (case FHE_makePubliclyDecryptable (thisAddress s) (totalYesVotes s) (fhe s) of
        Inl e \<Rightarrow> Reverted e s
      | Inr c1 \<Rightarrow>
         (case FHE_makePubliclyDecryptable (thisAddress s) (totalNoVotes s) c1 of
            Inl e \<Rightarrow> Reverted e (s\<lparr>fhe := c1\<rparr>)
          | Inr c2 \<Rightarrow> Returned (s\<lparr>fhe := c2\<rparr>)))"

definition makeTallyPublic :: "address \<Rightarrow> contract \<Rightarrow> result" where
  "makeTallyPublic msg_sender = onlyAdmin msg_sender makeTallyPublic_body"

definition getEncryptedTally :: "contract \<Rightarrow> euint8 \<times> euint8" where
  "getEncryptedTally s = (totalYesVotes s, totalNoVotes s)"

text \<open>
  \<^verbatim>\<open>castVote\<close>: the auto-registration step is a function of its own, so that the
  storage after it is visible in the body.
\<close>

definition autoRegister :: "address \<Rightarrow> bytes \<Rightarrow> contract \<Rightarrow> contract" where
  "autoRegister msg_sender extraData s =
     (if \<not> isRegistered s msg_sender
      then s\<lparr>isRegistered := (isRegistered s)(msg_sender := True),
              events := events s @ [VoterRegistered msg_sender extraData]\<rparr>
      else s)"

text \<open>
  The arithmetic of \<^verbatim>\<open>castVote\<close> (lines 186--191), six calls of the library in the
  order of the source: from the vote, the weight and the two totals to the two new totals.
  The library reads nothing of the storage of the contract, so the calls are a function of
  the capability alone.
\<close>

definition tally ::
  "address \<Rightarrow> euint8 \<Rightarrow> euint8 \<Rightarrow> euint8 \<Rightarrow> euint8 \<Rightarrow> capability \<Rightarrow> error + (euint8 \<times> euint8) \<times> capability" where
  "tally this vote weight yes no c =
     (case FHE_asEuint8 1 c of (one, c) \<Rightarrow>
      andThen (FHE_mul this vote weight c) (\<lambda>(yesInc, c).
      andThen (FHE_sub this one vote c) (\<lambda>(oneMinusVote, c).
      andThen (FHE_mul this oneMinusVote weight c) (\<lambda>(noInc, c).
      andThen (FHE_add this yes yesInc c) (\<lambda>(yes', c).
      andThen (FHE_add this no noInc c) (\<lambda>(no', c).
      Inr ((yes', no'), c)))))))"

definition castVote_body ::
  "verifier \<Rightarrow> address \<Rightarrow> externalEuint8 \<Rightarrow> externalEuint8 \<Rightarrow> bytes \<Rightarrow> bytes \<Rightarrow> contract \<Rightarrow> result" where
  "castVote_body ver msg_sender voteHandle weightHandle attestation extraData s =
     (if \<not> initialized s then Reverted (Require ''Contract not initialized'') s
      else let s1 = autoRegister msg_sender extraData s in
        if \<not> \<not> hasVoted s1 msg_sender then Reverted (Require ''Already voted'') s1
        else case FHE_fromExternal ver msg_sender voteHandle attestation (fhe s1) of
               None \<Rightarrow> Reverted InvalidCiphertext s1
             | Some (vote, c2) \<Rightarrow>
        (case FHE_fromExternal ver msg_sender weightHandle attestation c2 of
               None \<Rightarrow> Reverted InvalidCiphertext (s1\<lparr>fhe := c2\<rparr>)
             | Some (weight, c3) \<Rightarrow>
        (case tally (thisAddress s1) vote weight (totalYesVotes s1) (totalNoVotes s1) c3 of
               Inl e \<Rightarrow> Reverted e (s1\<lparr>fhe := c3\<rparr>)
             | Inr ((yes', no'), c4) \<Rightarrow>
        (let s4 = s1\<lparr>totalYesVotes := yes',
                     totalNoVotes := no',
                     hasVoted := (hasVoted s1)(msg_sender := True),
                     events := events s1 @ [VoteCast msg_sender extraData],
                     fhe := c4\<rparr>
         in case FHE_allowThis (thisAddress s4) (totalYesVotes s4) c4 of
               Inl e \<Rightarrow> Reverted e s4
             | Inr c5 \<Rightarrow>
           (case FHE_allowThis (thisAddress s4) (totalNoVotes s4) c5 of
               Inl e \<Rightarrow> Reverted e (s4\<lparr>fhe := c5\<rparr>)
             | Inr c6 \<Rightarrow> Returned (s4\<lparr>fhe := c6\<rparr>))))))"

definition castVote ::
  "verifier \<Rightarrow> address \<Rightarrow> uint256 \<Rightarrow> externalEuint8 \<Rightarrow> externalEuint8 \<Rightarrow> bytes \<Rightarrow> bytes \<Rightarrow> contract \<Rightarrow> result" where
  "castVote ver msg_sender block_timestamp voteHandle weightHandle attestation extraData =
     votingOpen block_timestamp (castVote_body ver msg_sender voteHandle weightHandle attestation extraData)"

definition grantMyVoteDecryptAccess ::
  "verifier \<Rightarrow> address \<Rightarrow> externalEuint8 \<Rightarrow> bytes \<Rightarrow> contract \<Rightarrow> result" where
  "grantMyVoteDecryptAccess ver msg_sender voteHandle attestation s =
     (if \<not> isRegistered s msg_sender then Reverted (Require ''Not registered'') s
      else case FHE_fromExternal ver msg_sender voteHandle attestation (fhe s) of
             None \<Rightarrow> Reverted InvalidCiphertext s
           | Some (vote, c1) \<Rightarrow>
              (case FHE_allow (thisAddress s) vote msg_sender c1 of
                 Inl e \<Rightarrow> Reverted e (s\<lparr>fhe := c1\<rparr>)
               | Inr c2 \<Rightarrow> Returned (s\<lparr>fhe := c2\<rparr>)))"

definition validity :: "address \<Rightarrow> euint8 \<Rightarrow> capability \<Rightarrow> error + ebool \<times> capability" where
  "validity this vote c =
     (case FHE_asEuint8 0 c of (zero, c) \<Rightarrow>
      andThen (FHE_eq this vote zero c) (\<lambda>(isZero, c).
      case FHE_asEuint8 1 c of (one, c) \<Rightarrow>
      andThen (FHE_eq this vote one c) (\<lambda>(isOne, c).
      FHE_or this isZero isOne c)))"

definition verifyVote ::
  "verifier \<Rightarrow> address \<Rightarrow> externalEuint8 \<Rightarrow> bytes \<Rightarrow> contract \<Rightarrow> result" where
  "verifyVote ver msg_sender voteHandle attestation s =
     (case FHE_fromExternal ver msg_sender voteHandle attestation (fhe s) of
        None \<Rightarrow> Reverted InvalidCiphertext s
      | Some (vote, c1) \<Rightarrow>
         (case validity (thisAddress s) vote c1 of
            Inl e \<Rightarrow> Reverted e (s\<lparr>fhe := c1\<rparr>)
          | Inr (isValid, c2) \<Rightarrow>
             (case FHE_allow (thisAddress s) isValid msg_sender c2 of
                Inl e \<Rightarrow> Reverted e (s\<lparr>fhe := c2\<rparr>)
              | Inr c3 \<Rightarrow> Returned (s\<lparr>fhe := c3\<rparr>))))"

subsection \<open>Calls, transactions and call sequences\<close>

datatype call =
    Init
  | RegisterVoter address bytes
  | AllowTallyAccess address bytes
  | MakeTallyPublic
  | CastVote externalEuint8 externalEuint8 bytes bytes
  | GrantMyVoteDecryptAccess externalEuint8 bytes
  | VerifyVote externalEuint8 bytes

record tx =
  sender :: address
  timestamp :: uint256
  call :: call

fun dispatch :: "verifier \<Rightarrow> address \<Rightarrow> uint256 \<Rightarrow> call \<Rightarrow> contract \<Rightarrow> result" where
  "dispatch ver a t Init = init a"
| "dispatch ver a t (RegisterVoter voter extraData) = registerVoter a voter extraData"
| "dispatch ver a t (AllowTallyAccess viewer extraData) = allowTallyAccess a viewer extraData"
| "dispatch ver a t MakeTallyPublic = makeTallyPublic a"
| "dispatch ver a t (CastVote vh wh att extraData) = castVote ver a t vh wh att extraData"
| "dispatch ver a t (GrantMyVoteDecryptAccess vh att) = grantMyVoteDecryptAccess ver a vh att"
| "dispatch ver a t (VerifyVote vh att) = verifyVote ver a vh att"

text \<open>
  One external call of the contract. An externally owned account sends one call per
  transaction; a contract account may send several in one transaction, and then the
  transient permissions of the earlier calls are still there for the later ones.
\<close>

definition exec :: "verifier \<Rightarrow> tx \<Rightarrow> contract \<Rightarrow> receipt \<times> contract" where
  "exec ver x s = transact (dispatch ver (sender x) (timestamp x) (call x)) s"

definition step :: "verifier \<Rightarrow> contract \<Rightarrow> tx \<Rightarrow> contract" where
  "step ver s x = snd (exec ver x s)"

text \<open>A history of the contract is a sequence of calls and ends of transactions.\<close>

datatype action = Call tx | EndOfTransaction

fun act :: "verifier \<Rightarrow> contract \<Rightarrow> action \<Rightarrow> contract" where
  "act ver s (Call x) = step ver s x"
| "act ver s EndOfTransaction = endTransaction s"

definition run :: "verifier \<Rightarrow> contract \<Rightarrow> action list \<Rightarrow> contract" where
  "run ver s xs = foldl (act ver) s xs"

text \<open>The states of a deployed contract: what the constructor built, and every state a
  call or the end of a transaction leaves.\<close>

inductive reachable :: "verifier \<Rightarrow> contract \<Rightarrow> bool" for ver :: verifier where
  deployed: "constructor this a t d = Inr s \<Longrightarrow> reachable ver s"
| stepped: "reachable ver s \<Longrightarrow> reachable ver (step ver s x)"
| ended: "reachable ver s \<Longrightarrow> reachable ver (endTransaction s)"

fun is_castVote :: "call \<Rightarrow> bool" where
  "is_castVote (CastVote _ _ _ _) = True"
| "is_castVote _ = False"

fun is_registerVoter :: "call \<Rightarrow> bool" where
  "is_registerVoter (RegisterVoter _ _) = True"
| "is_registerVoter _ = False"

text \<open>The number of \<^verbatim>\<open>castVote\<close> calls of account \<open>v\<close> that succeed along a history.\<close>

fun successes :: "verifier \<Rightarrow> address \<Rightarrow> contract \<Rightarrow> action list \<Rightarrow> nat" where
  "successes ver v s [] = 0"
| "successes ver v s (Call x # xs) =
     (if sender x = v \<and> is_castVote (call x) \<and> fst (exec ver x s) = Success then 1 else 0)
       + successes ver v (step ver s x) xs"
| "successes ver v s (EndOfTransaction # xs) = successes ver v (endTransaction s) xs"

text \<open>The capability after the vote and the weight of a \<^verbatim>\<open>castVote\<close> call have been
  verified.\<close>

definition verified :: "externalEuint8 \<Rightarrow> 8 word \<Rightarrow> externalEuint8 \<Rightarrow> 8 word \<Rightarrow> capability \<Rightarrow> capability" where
  "verified vh v wh w c = allowTransient (Input wh w) (allowTransient (Input vh v) c)"

subsection \<open>A concrete round\<close>

text \<open>
  The contract is deployed at address 100 by account 1 at time 1000 with a duration of
  86400 seconds. The verifier of the round knows four ciphertexts, each bound to the account
  that encrypted it: a 1 and a 3 of account 1, a 1 and a 5 of account 2. It rejects every
  other handle and every empty attestation.

  Account 1 initialises the totals at time 1500 (\<open>ballot1\<close> is the state inside that
  transaction). In the flow of the repository the transaction ends there, and account 2
  then sends the vote of Scenario A of the specification, a yes of weight 5, in a
  transaction of its own (\<open>voteTx\<close>). In the other flow account 1 is a contract account
  that sends \<^verbatim>\<open>init\<close> and a vote of its own, a yes of weight 3, in one transaction
  (\<open>adminVoteTx\<close>); \<open>ballot2\<close> is the state after that transaction.
\<close>

definition mockVerifier :: verifier where
  "mockVerifier h attestation a =
     (if attestation = [] then None
      else map_of [((257, 1), 1), ((259, 1), 3), ((1, 2), 1), ((5, 2), 5)] (h, a))"

definition ballot0 :: contract where
  "ballot0 = \<lparr>thisAddress = 100, admin = 1, totalYesVotes = Null, totalNoVotes = Null,
     votingEndTime = 87400, initialized = False, isRegistered = (\<lambda>_. False),
     hasVoted = (\<lambda>_. False), events = [],
     fhe = \<lparr>acl = {}, decryptable = {}, transient = {}\<rparr>\<rparr>"

definition initTx :: tx where
  "initTx = \<lparr>sender = 1, timestamp = 1500, call = Init\<rparr>"

definition ballot1 :: contract where
  "ballot1 = ballot0\<lparr>totalYesVotes := Trivial 0, totalNoVotes := Trivial 0, initialized := True,
     fhe := \<lparr>acl = {}, decryptable = {}, transient = {Trivial 0}\<rparr>\<rparr>"

definition voteTx :: tx where
  "voteTx = \<lparr>sender = 2, timestamp = 2000, call = CastVote 1 5 [7] [9]\<rparr>"

definition adminVoteTx :: tx where
  "adminVoteTx = \<lparr>sender = 1, timestamp = 1500, call = CastVote 257 259 [7] [8]\<rparr>"

definition yes1 :: handle where
  "yes1 = Result FheAdd (Trivial 0) (Result FheMul (Input 257 1) (Input 259 3))"

definition no1 :: handle where
  "no1 = Result FheAdd (Trivial 0)
           (Result FheMul (Result FheSub (Trivial 1) (Input 257 1)) (Input 259 3))"

definition ballot2 :: contract where
  "ballot2 = ballot0\<lparr>totalYesVotes := yes1, totalNoVotes := no1, initialized := True,
      isRegistered := (isRegistered ballot0)(1 := True),
      hasVoted := (hasVoted ballot0)(1 := True),
      events := [VoterRegistered 1 [8], VoteCast 1 [8]],
      fhe := \<lparr>acl = {(yes1, 100), (no1, 100)}, decryptable = {}, transient = {}\<rparr>\<rparr>"

text \<open>A vote of account 1 at the deadline, and a vote with an attestation the verifier
  rejects.\<close>

definition lateVoteTx :: tx where
  "lateVoteTx = \<lparr>sender = 1, timestamp = 87400, call = CastVote 257 259 [7] [9]\<rparr>"

definition badVoteTx :: tx where
  "badVoteTx = \<lparr>sender = 3, timestamp = 2000, call = CastVote 1 5 [] [9]\<rparr>"

section \<open>Basic facts\<close>

lemmas fhe_defs = FHE_asEuint8_def FHE_op_def operand_def FHE_allow_def FHE_allowThis_def
  FHE_makePubliclyDecryptable_def FHE_fromExternal_def allowTransient_def isAllowed_def

lemmas other_defs = init_def init_body_def registerVoter_def registerVoter_body_def
  allowTallyAccess_def allowTallyAccess_body_def makeTallyPublic_def makeTallyPublic_body_def
  grantMyVoteDecryptAccess_def verifyVote_def onlyAdmin_def FHE_asEuint8_def

lemmas eval_defs = exec_def transact_def other_defs castVote_def votingOpen_def castVote_body_def
  autoRegister_def tally_def FHE_op_def operand_def FHE_allow_def FHE_allowThis_def
  FHE_makePubliclyDecryptable_def FHE_fromExternal_def allowTransient_def isAllowed_def
  endTransaction_def mockVerifier_def Let_def

subsection \<open>The library\<close>

lemma andThen_simps [simp]:
  "andThen (Inl e) k = Inl e" "andThen (Inr x) k = k x"
  by (simp_all add: andThen_def)

lemma andThen_Inr: "andThen m k = Inr y \<longleftrightarrow> (\<exists>x. m = Inr x \<and> k x = Inr y)"
  by (cases m) simp_all

lemma andThen_Inl: "andThen m k = Inl e \<longleftrightarrow> m = Inl e \<or> (\<exists>x. m = Inr x \<and> k x = Inl e)"
  by (cases m) simp_all

lemma FHE_op_error: "FHE_op f this a b c = Inl e \<Longrightarrow> e = ACLNotAllowed"
  by (auto simp: FHE_op_def operand_def FHE_asEuint8_def split: if_splits prod.splits)

lemma FHE_op_Inr:
  assumes "FHE_op f this a b c = Inr (r, c')"
  shows "acl c' = acl c" and "decryptable c' = decryptable c"
    and "transient c \<subseteq> transient c'" and "r \<in> transient c'"
    and "\<exists>a' b'. r = Result f a' b' \<and> plain a' = plain a \<and> plain b' = plain b"
  using assms
  by (auto simp: fhe_defs split: if_splits)

lemma FHE_op_ok:
  assumes "a = Null \<or> isAllowed this c a" and "b = Null \<or> isAllowed this c b"
  shows "\<exists>r c'. FHE_op f this a b c = Inr (r, c')"
  using assms by (auto simp: fhe_defs)

lemma isAllowed_mono:
  "isAllowed this c h \<Longrightarrow> acl c \<subseteq> acl c' \<Longrightarrow> transient c \<subseteq> transient c' \<Longrightarrow> isAllowed this c' h"
  by (auto simp: isAllowed_def)

lemma tally_error: "tally this vote weight yes no c = Inl e \<Longrightarrow> e = ACLNotAllowed"
  by (auto simp: tally_def FHE_asEuint8_def andThen_Inl dest: FHE_op_error split: prod.splits)

lemma tally_Inr:
  assumes "tally this vote weight yes no c = Inr ((yes', no'), c')"
  shows "acl c' = acl c" and "decryptable c' = decryptable c"
    and "transient c \<subseteq> transient c'" and "yes' \<in> transient c'" and "no' \<in> transient c'"
    and "plain yes' = plain yes + plain vote * plain weight"
    and "plain no' = plain no + (1 - plain vote) * plain weight"
proof -
  obtain c0 where c0: "c0 = allowTransient (Trivial 1) c" by simp
  from assms obtain yesInc c1 d c2 noInc c3 c4 where
    m1: "FHE_mul this vote weight c0 = Inr (yesInc, c1)" and
    m2: "FHE_sub this (Trivial 1) vote c1 = Inr (d, c2)" and
    m3: "FHE_mul this d weight c2 = Inr (noInc, c3)" and
    m4: "FHE_add this yes yesInc c3 = Inr (yes', c4)" and
    m5: "FHE_add this no noInc c4 = Inr (no', c')"
    by (auto simp: tally_def FHE_asEuint8_def andThen_Inr c0)
  note f1 = FHE_op_Inr [OF m1] and f2 = FHE_op_Inr [OF m2] and f3 = FHE_op_Inr [OF m3]
    and f4 = FHE_op_Inr [OF m4] and f5 = FHE_op_Inr [OF m5]
  have t0: "acl c0 = acl c" "decryptable c0 = decryptable c" "transient c \<subseteq> transient c0"
    by (auto simp: c0 allowTransient_def)
  show "acl c' = acl c" using t0 f1(1) f2(1) f3(1) f4(1) f5(1) by simp
  show "decryptable c' = decryptable c" using t0 f1(2) f2(2) f3(2) f4(2) f5(2) by simp
  show "transient c \<subseteq> transient c'" using t0 f1(3) f2(3) f3(3) f4(3) f5(3) by blast
  show "yes' \<in> transient c'" using f4(4) f5(3) by blast
  show "no' \<in> transient c'" by (rule f5(4))
  show "plain yes' = plain yes + plain vote * plain weight"
    using f4(5) f1(5) by auto
  show "plain no' = plain no + (1 - plain vote) * plain weight"
    using f5(5) f3(5) f2(5) by auto
qed

lemma tally_ok:
  assumes "isAllowed this c vote" and "isAllowed this c weight"
    and "yes = Null \<or> isAllowed this c yes" and "no = Null \<or> isAllowed this c no"
  shows "\<exists>r. tally this vote weight yes no c = Inr r"
proof -
  define c0 where "c0 = allowTransient (Trivial 1) c"
  have e0: "acl c \<subseteq> acl c0" "transient c \<subseteq> transient c0" and one: "isAllowed this c0 (Trivial 1)"
    by (auto simp: c0_def allowTransient_def isAllowed_def)
  have a0: "isAllowed this c0 vote" "isAllowed this c0 weight"
    using assms(1,2) e0 by (auto intro: isAllowed_mono)
  obtain yesInc c1 where m1: "FHE_mul this vote weight c0 = Inr (yesInc, c1)"
    using FHE_op_ok [of vote this c0 weight FheMul] a0 by auto
  note f1 = FHE_op_Inr [OF m1]
  have a1: "isAllowed this c1 vote" "isAllowed this c1 weight" "isAllowed this c1 (Trivial 1)"
    using a0 one f1 by (auto intro: isAllowed_mono)
  obtain d c2 where m2: "FHE_sub this (Trivial 1) vote c1 = Inr (d, c2)"
    using FHE_op_ok [of "Trivial 1" this c1 vote FheSub] a1 by auto
  note f2 = FHE_op_Inr [OF m2]
  have a2: "isAllowed this c2 d" "isAllowed this c2 weight"
    using a1 f2 by (auto intro: isAllowed_mono simp: isAllowed_def)
  obtain noInc c3 where m3: "FHE_mul this d weight c2 = Inr (noInc, c3)"
    using FHE_op_ok [of d this c2 weight FheMul] a2 by auto
  note f3 = FHE_op_Inr [OF m3]
  have sub3: "acl c \<subseteq> acl c3" "transient c \<subseteq> transient c3"
    using e0 f1 f2 f3 by auto
  have y3: "isAllowed this c3 yesInc" "isAllowed this c3 noInc"
    using f1(4) f2(3) f3(3,4) by (auto simp: isAllowed_def)
  have "yes = Null \<or> isAllowed this c3 yes"
    using assms(3) sub3 by (auto intro: isAllowed_mono)
  then obtain yes' c4 where m4: "FHE_add this yes yesInc c3 = Inr (yes', c4)"
    using FHE_op_ok [of yes this c3 yesInc FheAdd] y3 by auto
  note f4 = FHE_op_Inr [OF m4]
  have sub4: "acl c \<subseteq> acl c4" "transient c \<subseteq> transient c4"
    and sub34: "acl c3 \<subseteq> acl c4" "transient c3 \<subseteq> transient c4"
    using sub3 f4 by auto
  have "isAllowed this c4 noInc"
    using y3(2) sub34 by (rule isAllowed_mono)
  moreover have "no = Null \<or> isAllowed this c4 no"
    using assms(4) sub4 isAllowed_mono [of this c no c4] by blast
  ultimately obtain no' c5 where m5: "FHE_add this no noInc c4 = Inr (no', c5)"
    using FHE_op_ok [of no this c4 noInc FheAdd] by auto
  show ?thesis
    using m1 m2 m3 m4 m5 by (simp add: tally_def FHE_asEuint8_def c0_def)
qed

subsection \<open>The body of castVote, case by case\<close>

lemma castVote_body_Returned:
  assumes "castVote_body ver a vh wh att ex s = Returned s'"
  shows "initialized s \<and> \<not> hasVoted s a \<and>
    (\<exists>v w yes' no' c'. ver vh att a = Some v \<and> ver wh att a = Some w \<and>
       tally (thisAddress s) (Input vh v) (Input wh w) (totalYesVotes s) (totalNoVotes s)
         (verified vh v wh w (fhe s)) = Inr ((yes', no'), c') \<and>
       s' = (autoRegister a ex s)\<lparr>totalYesVotes := yes', totalNoVotes := no',
              hasVoted := (hasVoted s)(a := True),
              events := events (autoRegister a ex s) @ [VoteCast a ex],
              fhe := c'\<lparr>acl := insert (no', thisAddress s) (insert (yes', thisAddress s) (acl c'))\<rparr>\<rparr>)"
  using assms
  by (auto simp: castVote_body_def autoRegister_def FHE_fromExternal_def FHE_allowThis_def
      FHE_allow_def verified_def Let_def split: if_splits option.splits sum.splits prod.splits)

lemma allowThis_after_tally:
  assumes "tally this vote weight yes no c = Inr ((yes', no'), c')"
  shows "FHE_allowThis this yes' c' = Inr (c'\<lparr>acl := insert (yes', this) (acl c')\<rparr>)"
    and "FHE_allowThis this no' (c'\<lparr>acl := insert (yes', this) (acl c')\<rparr>)
           = Inr (c'\<lparr>acl := insert (no', this) (insert (yes', this) (acl c'))\<rparr>)"
  using tally_Inr(4,5) [OF assms]
  by (simp_all add: FHE_allowThis_def FHE_allow_def isAllowed_def)

lemma castVote_body_eq:
  "castVote_body ver a vh wh att ex s =
     (if \<not> initialized s then Reverted NotInitialized s
      else if hasVoted s a then Reverted AlreadyVoted (autoRegister a ex s)
      else case ver vh att a of
        None \<Rightarrow> Reverted InvalidCiphertext (autoRegister a ex s)
      | Some v \<Rightarrow>
       (case ver wh att a of
          None \<Rightarrow> Reverted InvalidCiphertext
                    ((autoRegister a ex s)\<lparr>fhe := allowTransient (Input vh v) (fhe s)\<rparr>)
        | Some w \<Rightarrow>
          (case tally (thisAddress s) (Input vh v) (Input wh w) (totalYesVotes s) (totalNoVotes s)
                  (verified vh v wh w (fhe s)) of
             Inl e \<Rightarrow> Reverted e ((autoRegister a ex s)\<lparr>fhe := verified vh v wh w (fhe s)\<rparr>)
           | Inr ((yes', no'), c') \<Rightarrow>
               Returned ((autoRegister a ex s)\<lparr>totalYesVotes := yes', totalNoVotes := no',
                  hasVoted := (hasVoted s)(a := True),
                  events := events (autoRegister a ex s) @ [VoteCast a ex],
                  fhe := c'\<lparr>acl := insert (no', thisAddress s)
                                        (insert (yes', thisAddress s) (acl c'))\<rparr>\<rparr>))))"
proof -
  have reg: "hasVoted (autoRegister a ex s) = hasVoted s" "fhe (autoRegister a ex s) = fhe s"
    "thisAddress (autoRegister a ex s) = thisAddress s"
    "totalYesVotes (autoRegister a ex s) = totalYesVotes s"
    "totalNoVotes (autoRegister a ex s) = totalNoVotes s"
    by (simp_all add: autoRegister_def)
  show ?thesis
    by (auto simp: castVote_body_def Let_def reg FHE_fromExternal_def verified_def
        allowThis_after_tally split: option.splits sum.splits prod.splits)
qed

lemmas castVote_eq = castVote_def votingOpen_def castVote_body_eq

lemma castVote_receipt:
  "fst (exec ver \<lparr>sender = a, timestamp = t, call = CastVote vh wh att ex\<rparr> s) =
     (if \<not> t < votingEndTime s then Failure VotingClosed
      else if \<not> initialized s then Failure NotInitialized
      else if hasVoted s a then Failure AlreadyVoted
      else case ver vh att a of
        None \<Rightarrow> Failure InvalidCiphertext
      | Some v \<Rightarrow>
       (case ver wh att a of
          None \<Rightarrow> Failure InvalidCiphertext
        | Some w \<Rightarrow>
          (case tally (thisAddress s) (Input vh v) (Input wh w) (totalYesVotes s) (totalNoVotes s)
                  (verified vh v wh w (fhe s)) of
             Inl e \<Rightarrow> Failure e
           | Inr r \<Rightarrow> Success)))"
  by (auto simp: exec_def transact_def castVote_eq split: option.splits sum.splits prod.splits)

lemma exec_failure: "fst (exec ver x s) \<noteq> Success \<Longrightarrow> snd (exec ver x s) = s"
  by (auto simp: exec_def transact_def split: result.splits)

lemma exec_Failure_eq: "fst (exec ver x s) = Failure e \<Longrightarrow> exec ver x s = (Failure e, s)"
  by (auto simp: exec_def transact_def split: result.splits)

lemma castVote_success:
  assumes "exec ver \<lparr>sender = v, timestamp = t, call = CastVote vh wh att ex\<rparr> s = (Success, s1)"
  shows "t < votingEndTime s" and "initialized s" and "\<not> hasVoted s v"
    and "hasVoted s1 = (hasVoted s)(v := True)" and "isRegistered s1 = (isRegistered s)(v := True)"
    and "initialized s1" and "votingEndTime s1 = votingEndTime s"
    and "events s1 = events (autoRegister v ex s) @ [VoteCast v ex]"
    and "isAllowed (thisAddress s1) (fhe s1) (totalYesVotes s1)"
    and "isAllowed (thisAddress s1) (fhe s1) (totalNoVotes s1)"
  using assms
  by (auto simp: exec_def transact_def castVote_eq autoRegister_def isAllowed_def
      split: option.splits if_splits sum.splits prod.splits)

lemma castVote_ok:
  assumes "t < votingEndTime s" and "initialized s" and "\<not> hasVoted s a"
    and "ver vh att a = Some v" and "ver wh att a = Some w"
    and "isAllowed (thisAddress s) (fhe s) (totalYesVotes s)"
    and "isAllowed (thisAddress s) (fhe s) (totalNoVotes s)"
  shows "fst (exec ver \<lparr>sender = a, timestamp = t, call = CastVote vh wh att ex\<rparr> s) = Success"
proof -
  have sub: "acl (fhe s) \<subseteq> acl (verified vh v wh w (fhe s))"
    "transient (fhe s) \<subseteq> transient (verified vh v wh w (fhe s))"
    by (auto simp: verified_def allowTransient_def)
  have "isAllowed (thisAddress s) (verified vh v wh w (fhe s)) (Input vh v)"
    and "isAllowed (thisAddress s) (verified vh v wh w (fhe s)) (Input wh w)"
    by (simp_all add: verified_def allowTransient_def isAllowed_def)
  moreover have "isAllowed (thisAddress s) (verified vh v wh w (fhe s)) (totalYesVotes s)"
    and "isAllowed (thisAddress s) (verified vh v wh w (fhe s)) (totalNoVotes s)"
    using assms(6,7) sub by (auto intro: isAllowed_mono)
  ultimately obtain r where
    "tally (thisAddress s) (Input vh v) (Input wh w) (totalYesVotes s) (totalNoVotes s)
       (verified vh v wh w (fhe s)) = Inr r"
    using tally_ok by blast
  with assms(1-5) show ?thesis by (simp add: castVote_receipt)
qed

lemma castVote_again:
  assumes "hasVoted s v" and "initialized s"
  shows "exec ver \<lparr>sender = v, timestamp = t, call = CastVote vh wh att ex\<rparr> s
           = (Failure (if t < votingEndTime s then AlreadyVoted else VotingClosed), s)"
  using assms by (intro exec_Failure_eq) (simp add: castVote_receipt)

lemma castVote_accumulates:
  assumes "ver vh att a = Some v" and "ver wh att a = Some w"
    and "exec ver \<lparr>sender = a, timestamp = t, call = CastVote vh wh att ex\<rparr> s = (Success, s')"
  shows "plain (totalYesVotes s') = plain (totalYesVotes s) + v * w \<and>
         plain (totalNoVotes s') = plain (totalNoVotes s) + (1 - v) * w \<and>
         uint (plain (totalYesVotes s'))
           = (uint (plain (totalYesVotes s)) + uint v * uint w) mod 2 ^ 8 \<and>
         uint (plain (totalNoVotes s'))
           = (uint (plain (totalNoVotes s)) + (1 - uint v) * uint w) mod 2 ^ 8"
proof -
  have yes: "plain (totalYesVotes s') = plain (totalYesVotes s) + v * w"
    and no: "plain (totalNoVotes s') = plain (totalNoVotes s) + (1 - v) * w"
    using assms
    by (auto simp: exec_def transact_def castVote_eq autoRegister_def
        split: if_splits sum.splits prod.splits dest: tally_Inr(6,7))
  have "uint (plain (totalYesVotes s) + v * w)
          = (uint (plain (totalYesVotes s)) + uint v * uint w) mod 2 ^ 8"
    by (simp add: uint_word_ariths mod_simps)
  moreover have "uint (plain (totalNoVotes s) + (1 - v) * w)
          = (uint (plain (totalNoVotes s)) + (1 - uint v) * uint w) mod 2 ^ 8"
    by (simp add: uint_word_ariths mod_simps)
  ultimately show ?thesis using yes no by simp
qed

subsection \<open>What a call leaves alone\<close>

lemma dispatch_frame:
  assumes "dispatch ver a t c s = Returned s'"
  shows "admin s' = admin s" and "votingEndTime s' = votingEndTime s"
    and "thisAddress s' = thisAddress s"
    and "initialized s \<Longrightarrow> initialized s'"
    and "hasVoted s v \<Longrightarrow> hasVoted s' v"
    and "isRegistered s v \<Longrightarrow> isRegistered s' v"
  using assms
  by (cases c; auto simp: other_defs castVote_eq autoRegister_def
        split: if_splits option.splits sum.splits prod.splits)+

lemma step_cases:
  obtains (commit) s' where "dispatch ver (sender x) (timestamp x) (call x) s = Returned s'"
      and "step ver s x = s'"
  | (revert) "step ver s x = s"
  by (cases "dispatch ver (sender x) (timestamp x) (call x) s")
     (auto simp: step_def exec_def transact_def)

lemma step_frame:
  shows "admin (step ver s x) = admin s" and "votingEndTime (step ver s x) = votingEndTime s"
    and "thisAddress (step ver s x) = thisAddress s"
    and "initialized s \<Longrightarrow> initialized (step ver s x)"
    and "hasVoted s v \<Longrightarrow> hasVoted (step ver s x) v"
    and "isRegistered s v \<Longrightarrow> isRegistered (step ver s x) v"
  by (cases rule: step_cases [of ver x s]; simp add: dispatch_frame)+

lemma endTransaction_frame [simp]:
  "admin (endTransaction s) = admin s" "votingEndTime (endTransaction s) = votingEndTime s"
  "thisAddress (endTransaction s) = thisAddress s" "initialized (endTransaction s) = initialized s"
  "hasVoted (endTransaction s) = hasVoted s" "isRegistered (endTransaction s) = isRegistered s"
  "totalYesVotes (endTransaction s) = totalYesVotes s" "totalNoVotes (endTransaction s) = totalNoVotes s"
  "events (endTransaction s) = events s" "acl (fhe (endTransaction s)) = acl (fhe s)"
  "decryptable (fhe (endTransaction s)) = decryptable (fhe s)" "transient (fhe (endTransaction s)) = {}"
  by (simp_all add: endTransaction_def)

lemma act_frame:
  shows "admin (act ver s y) = admin s" and "votingEndTime (act ver s y) = votingEndTime s"
    and "thisAddress (act ver s y) = thisAddress s"
    and "initialized s \<Longrightarrow> initialized (act ver s y)"
    and "hasVoted s v \<Longrightarrow> hasVoted (act ver s y) v"
    and "isRegistered s v \<Longrightarrow> isRegistered (act ver s y) v"
  by (cases y; simp add: step_frame)+

lemma run_frame:
  shows "admin (run ver s xs) = admin s" and "votingEndTime (run ver s xs) = votingEndTime s"
    and "thisAddress (run ver s xs) = thisAddress s"
    and "initialized s \<Longrightarrow> initialized (run ver s xs)"
    and "hasVoted s v \<Longrightarrow> hasVoted (run ver s xs) v"
    and "isRegistered s v \<Longrightarrow> isRegistered (run ver s xs) v"
  unfolding run_def
  by (induction xs arbitrary: s; simp add: act_frame)+

lemma flags_written_by:
  shows "\<not> is_castVote (call x) \<Longrightarrow> hasVoted (step ver s x) = hasVoted s"
    and "\<not> is_castVote (call x) \<Longrightarrow> \<not> is_registerVoter (call x) \<Longrightarrow>
           isRegistered (step ver s x) = isRegistered s"
  by (cases "call x";
      auto simp: step_def exec_def transact_def other_defs
        split: option.splits if_splits sum.splits prod.splits)+

lemma deployed_fresh:
  "constructor this a t d = Inr s \<Longrightarrow>
     thisAddress s = this \<and> admin s = a \<and> \<not> initialized s \<and> \<not> hasVoted s v \<and> \<not> isRegistered s v \<and>
     totalYesVotes s = Null \<and> totalNoVotes s = Null \<and> events s = [] \<and>
     fhe s = \<lparr>acl = {}, decryptable = {}, transient = {}\<rparr>"
  by (auto simp: constructor_def split: if_splits)

subsection \<open>Voted accounts are registered\<close>

lemma inv_dispatch:
  assumes "dispatch ver a t c s = Returned s'" and "hasVoted s v \<longrightarrow> isRegistered s v"
  shows "hasVoted s' v \<longrightarrow> isRegistered s' v"
  using assms
  by (cases c; auto simp: other_defs castVote_eq autoRegister_def
        split: if_splits option.splits sum.splits prod.splits)

lemma inv_step:
  "hasVoted s v \<longrightarrow> isRegistered s v \<Longrightarrow>
     hasVoted (step ver s x) v \<longrightarrow> isRegistered (step ver s x) v"
  by (cases rule: step_cases [of ver x s]) (auto dest: inv_dispatch)

lemma inv_reachable: "reachable ver s \<Longrightarrow> hasVoted s v \<longrightarrow> isRegistered s v"
proof (induction rule: reachable.induct)
  case (deployed this a t d s)
  then show ?case by (auto simp: constructor_def split: if_splits)
next
  case (stepped s x)
  from stepped.IH show ?case by (rule inv_step)
next
  case (ended s)
  then show ?case by simp
qed

subsection \<open>Voting once\<close>

lemma voted_cannot_vote:
  "hasVoted s (sender x) \<Longrightarrow> is_castVote (call x) \<Longrightarrow> fst (exec ver x s) \<noteq> Success"
  by (cases x; cases "call x") (auto simp: castVote_receipt)

lemma vote_marks_voter:
  assumes "is_castVote (call x)" and "fst (exec ver x s) = Success"
  shows "hasVoted (step ver s x) (sender x)"
proof -
  obtain vh wh att ex where c: "call x = CastVote vh wh att ex"
    using assms(1) by (cases "call x") auto
  define y where "y = \<lparr>sender = sender x, timestamp = timestamp x, call = CastVote vh wh att ex\<rparr>"
  have "x = y" using c by (simp add: y_def)
  then have "exec ver y s = (Success, step ver s x)"
    using assms(2) by (simp add: step_def prod_eq_iff)
  then have "hasVoted (step ver s x) = (hasVoted s)(sender x := True)"
    unfolding y_def by (rule castVote_success(4))
  then show ?thesis by simp
qed

lemma successes_bound: "successes ver v s xs \<le> (if hasVoted s v then 0 else 1)"
proof (induction xs arbitrary: s)
  case Nil
  show ?case by simp
next
  case (Cons y xs)
  show ?case
  proof (cases y)
    case EndOfTransaction
    with Cons.IH [of "endTransaction s"] show ?thesis by simp
  next
    case (Call x)
    show ?thesis
    proof (cases "sender x = v \<and> is_castVote (call x) \<and> fst (exec ver x s) = Success")
      case True
      then have "\<not> hasVoted s v" and "hasVoted (step ver s x) v"
        using voted_cannot_vote [of s x ver] vote_marks_voter [of x ver s] by auto
      with True Call Cons.IH [of "step ver s x"] show ?thesis by simp
    next
      case False
      have "hasVoted s v \<Longrightarrow> hasVoted (step ver s x) v" by (rule step_frame)
      with False Call Cons.IH [of "step ver s x"] show ?thesis by (auto split: if_splits)
    qed
  qed
qed

subsection \<open>Initialising\<close>

lemma init_exec:
  "exec ver \<lparr>sender = a, timestamp = t, call = Init\<rparr> s =
     (if a \<noteq> admin s then (Failure Unauthorized, s)
      else if initialized s then (Failure AlreadyInitialized, s)
      else (Success, s\<lparr>totalYesVotes := Trivial 0, totalNoVotes := Trivial 0, initialized := True,
                        fhe := allowTransient (Trivial 0) (fhe s)\<rparr>))"
  by (simp add: exec_def transact_def other_defs allowTransient_def)

subsection \<open>The concrete round, step by step\<close>

lemma ballot0_deployed: "constructor 100 1 1000 86400 = Inr ballot0"
  by (simp add: constructor_def ballot0_def)

lemma ballot1_init: "exec mockVerifier initTx ballot0 = (Success, ballot1)"
  by (simp add: eval_defs initTx_def ballot0_def ballot1_def)

lemma ballot2_admin_vote:
  "fst (exec mockVerifier adminVoteTx ballot1) = Success"
  "endTransaction (step mockVerifier ballot1 adminVoteTx) = ballot2"
  by (simp_all add: step_def eval_defs adminVoteTx_def ballot0_def ballot1_def ballot2_def
      yes1_def no1_def insert_commute)

lemma admin_vote_exec:
  "exec mockVerifier adminVoteTx ballot1 = (Success, step mockVerifier ballot1 adminVoteTx)"
  using ballot2_admin_vote(1) by (simp add: step_def prod_eq_iff)

lemma ballot2_late: "exec mockVerifier lateVoteTx ballot2 = (Failure VotingClosed, ballot2)"
  by (simp add: eval_defs lateVoteTx_def ballot0_def ballot2_def)

lemma ballot1_reachable: "reachable mockVerifier ballot1"
  using reachable.stepped [OF reachable.deployed [OF ballot0_deployed], of mockVerifier initTx]
    ballot1_init
  by (simp add: step_def)

lemma ballot2_reachable: "reachable mockVerifier ballot2"
  using reachable.ended [OF reachable.stepped [OF ballot1_reachable, of adminVoteTx]]
    ballot2_admin_vote(2)
  by simp

lemma ballot2_vote_adds:
  "fst (exec mockVerifier voteTx ballot2) = Success \<and>
   plain (totalYesVotes (step mockVerifier ballot2 voteTx)) = plain (totalYesVotes ballot2) + 5 \<and>
   plain (totalNoVotes (step mockVerifier ballot2 voteTx)) = plain (totalNoVotes ballot2)"
proof -
  have ok: "fst (exec mockVerifier voteTx ballot2) = Success"
    using castVote_ok [of 2000 ballot2 2 mockVerifier 1 "[7]" 1 5 5 "[9]"]
    by (simp add: voteTx_def ballot2_def ballot0_def mockVerifier_def isAllowed_def)
  then have "exec mockVerifier voteTx ballot2 = (Success, step mockVerifier ballot2 voteTx)"
    by (simp add: step_def prod_eq_iff)
  with ok show ?thesis
    using castVote_accumulates [of mockVerifier 1 "[7]" 2 1 5 5 2000 "[9]" ballot2
        "step mockVerifier ballot2 voteTx"]
    by (simp add: voteTx_def mockVerifier_def)
qed

section \<open>The claims of the specification\<close>

subsection \<open>C1: the order of the checks of castVote\<close>

text \<open>
  C1, as the code has it: \<^verbatim>\<open>castVote\<close> checks its preconditions in this order, the first
  failure ending the call with the storage untouched. First the modifier
  \<^verbatim>\<open>votingOpen\<close>: the current time must be strictly before \<open>votingEndTime\<close>, else the
  call fails with \<open>VotingClosed\<close>. Second, \<open>initialized\<close> must be true, else the call
  fails with \<open>NotInitialized\<close>. So a call made while \<open>initialized\<close> is false fails with
  \<open>NotInitialized\<close> exactly when it is made before the deadline, and with
  \<open>VotingClosed\<close> at or after it.
\<close>

theorem castVote_order:
  "(votingEndTime s \<le> t \<longrightarrow>
      exec ver \<lparr>sender = a, timestamp = t, call = CastVote vh wh att ex\<rparr> s = (Failure VotingClosed, s)) \<and>
   (t < votingEndTime s \<and> \<not> initialized s \<longrightarrow>
      exec ver \<lparr>sender = a, timestamp = t, call = CastVote vh wh att ex\<rparr> s = (Failure NotInitialized, s)) \<and>
   (fst (exec ver \<lparr>sender = a, timestamp = t, call = CastVote vh wh att ex\<rparr> s) = Failure VotingClosed
      \<longrightarrow> votingEndTime s \<le> t) \<and>
   (fst (exec ver \<lparr>sender = a, timestamp = t, call = CastVote vh wh att ex\<rparr> s) = Failure NotInitialized
      \<longrightarrow> t < votingEndTime s \<and> \<not> initialized s)"
proof (intro conjI impI)
  assume "votingEndTime s \<le> t"
  then show "exec ver \<lparr>sender = a, timestamp = t, call = CastVote vh wh att ex\<rparr> s = (Failure VotingClosed, s)"
    by (intro exec_Failure_eq) (simp add: castVote_receipt not_less)
next
  assume "t < votingEndTime s \<and> \<not> initialized s"
  then show "exec ver \<lparr>sender = a, timestamp = t, call = CastVote vh wh att ex\<rparr> s = (Failure NotInitialized, s)"
    by (intro exec_Failure_eq) (simp add: castVote_receipt)
next
  assume "fst (exec ver \<lparr>sender = a, timestamp = t, call = CastVote vh wh att ex\<rparr> s) = Failure VotingClosed"
  then show "votingEndTime s \<le> t"
    by (auto simp: castVote_receipt not_less split: if_splits option.splits sum.splits
        dest: tally_error)
next
  assume h: "fst (exec ver \<lparr>sender = a, timestamp = t, call = CastVote vh wh att ex\<rparr> s) = Failure NotInitialized"
  then show "t < votingEndTime s"
    by (auto simp: castVote_receipt split: if_splits)
  from h show "\<not> initialized s"
    by (auto simp: castVote_receipt split: if_splits option.splits sum.splits dest: tally_error)
qed

theorem castVote_order_witness:
  "exec mockVerifier \<lparr>sender = 2, timestamp = 87400, call = CastVote 1 5 [7] [9]\<rparr> ballot0
     = (Failure VotingClosed, ballot0) \<and>
   exec mockVerifier \<lparr>sender = 2, timestamp = 2000, call = CastVote 1 5 [7] [9]\<rparr> ballot0
     = (Failure NotInitialized, ballot0)"
  using castVote_order [of ballot0 87400 mockVerifier 2 1 5 "[7]" "[9]"]
    castVote_order [of ballot0 2000 mockVerifier 2 1 5 "[7]" "[9]"]
  by (simp add: ballot0_def)

text \<open>
  C1 as the specification words it (initialisation checked before the deadline) fails:
  on the freshly deployed, uninitialised contract a vote at the deadline is answered with
  \<open>VotingClosed\<close>, not with \<open>NotInitialized\<close>.
\<close>

theorem castVote_order_counterexample:
  "constructor 100 1 1000 86400 = Inr ballot0 \<and> \<not> initialized ballot0 \<and>
   exec mockVerifier lateVoteTx ballot0 = (Failure VotingClosed, ballot0) \<and>
   fst (exec mockVerifier lateVoteTx ballot0) \<noteq> Failure NotInitialized"
  using ballot0_deployed
  by (simp add: exec_def transact_def lateVoteTx_def ballot0_def castVote_def votingOpen_def)

subsection \<open>C2: a failed call leaves nothing behind\<close>

text \<open>
  C2: every call is all-or-nothing: when it fails, the storage, the event log and the
  permissions are those before the call. In particular, when \<^verbatim>\<open>castVote\<close> has
  auto-registered an unregistered caller and the verification of a ciphertext then rejects
  the attestation, the body reverts at a storage in which the caller is registered and the
  registration event is logged (and, when it was the weight that was rejected, the vote is
  usable for the rest of the transaction), and the call discards all of it: after the
  failed call the caller is not registered.
\<close>

theorem failed_call_no_effect:
  "(fst (exec ver x s) \<noteq> Success \<longrightarrow> snd (exec ver x s) = s) \<and>
   (initialized s \<and> t < votingEndTime s \<and> \<not> isRegistered s a \<and> \<not> hasVoted s a \<and>
      (ver vh att a = None \<or> ver wh att a = None) \<longrightarrow>
      castVote ver a t vh wh att ex s
        = Reverted InvalidCiphertext
            (case ver vh att a of
               None \<Rightarrow> autoRegister a ex s
             | Some v \<Rightarrow> (autoRegister a ex s)\<lparr>fhe := allowTransient (Input vh v) (fhe s)\<rparr>) \<and>
      isRegistered (autoRegister a ex s) a \<and>
      events (autoRegister a ex s) = events s @ [VoterRegistered a ex] \<and>
      exec ver \<lparr>sender = a, timestamp = t, call = CastVote vh wh att ex\<rparr> s = (Failure InvalidCiphertext, s) \<and>
      \<not> isRegistered (step ver s \<lparr>sender = a, timestamp = t, call = CastVote vh wh att ex\<rparr>) a)"
proof (intro conjI impI)
  assume "fst (exec ver x s) \<noteq> Success"
  then show "snd (exec ver x s) = s" by (rule exec_failure)
next
  assume h: "initialized s \<and> t < votingEndTime s \<and> \<not> isRegistered s a \<and> \<not> hasVoted s a \<and>
      (ver vh att a = None \<or> ver wh att a = None)"
  then show body: "castVote ver a t vh wh att ex s
        = Reverted InvalidCiphertext
            (case ver vh att a of
               None \<Rightarrow> autoRegister a ex s
             | Some v \<Rightarrow> (autoRegister a ex s)\<lparr>fhe := allowTransient (Input vh v) (fhe s)\<rparr>)"
    by (auto simp: castVote_eq split: option.splits)
  from h show "isRegistered (autoRegister a ex s) a"
    and "events (autoRegister a ex s) = events s @ [VoterRegistered a ex]"
    by (simp_all add: autoRegister_def)
  from body show failed:
    "exec ver \<lparr>sender = a, timestamp = t, call = CastVote vh wh att ex\<rparr> s = (Failure InvalidCiphertext, s)"
    by (simp add: exec_def transact_def)
  from h failed
  show "\<not> isRegistered (step ver s \<lparr>sender = a, timestamp = t, call = CastVote vh wh att ex\<rparr>) a"
    by (simp add: step_def)
qed

theorem failed_call_no_effect_witness:
  "castVote mockVerifier 3 2000 1 5 [] [9] ballot2
     = Reverted InvalidCiphertext (autoRegister 3 [9] ballot2) \<and>
   isRegistered (autoRegister 3 [9] ballot2) 3 \<and>
   exec mockVerifier badVoteTx ballot2 = (Failure InvalidCiphertext, ballot2) \<and>
   \<not> isRegistered (step mockVerifier ballot2 badVoteTx) 3 \<and>
   snd (exec mockVerifier badVoteTx ballot2) = ballot2"
  using failed_call_no_effect [of mockVerifier badVoteTx ballot2 2000 3 1 "[]" 5 "[9]"]
  by (simp add: badVoteTx_def ballot2_def ballot0_def mockVerifier_def)

subsection \<open>C3: one vote per voter\<close>

text \<open>
  C3, as the code has it: for every voter \<open>v\<close>, at most one \<^verbatim>\<open>castVote\<close> call of \<open>v\<close>
  succeeds in any history after deployment; \<open>hasVoted v\<close>, once true, stays true; and
  after a successful vote of \<open>v\<close>, whatever calls and ends of transactions follow, every
  further \<^verbatim>\<open>castVote\<close> of \<open>v\<close> fails and leaves the storage (so both totals) unchanged.
  The failure is \<open>AlreadyVoted\<close> when the attempt is made before \<open>votingEndTime\<close>, and
  \<open>VotingClosed\<close> when it is made at or after it.
\<close>

theorem one_vote_per_voter:
  "(constructor this a0 t0 d = Inr s0 \<longrightarrow> successes ver v s0 xs0 \<le> 1) \<and>
   (hasVoted s v \<longrightarrow> hasVoted (run ver s xs) v) \<and>
   (exec ver \<lparr>sender = v, timestamp = t, call = CastVote vh wh att ex\<rparr> s = (Success, s1) \<longrightarrow>
      \<not> hasVoted s v \<and> hasVoted s1 v \<and>
      exec ver \<lparr>sender = v, timestamp = t', call = CastVote vh' wh' att' ex'\<rparr> (run ver s1 xs)
        = (Failure (if t' < votingEndTime s then AlreadyVoted else VotingClosed), run ver s1 xs))"
proof (intro conjI impI)
  assume "constructor this a0 t0 d = Inr s0"
  then have "\<not> hasVoted s0 v" using deployed_fresh by blast
  with successes_bound [of ver v s0 xs0] show "successes ver v s0 xs0 \<le> 1" by simp
next
  assume "hasVoted s v"
  then show "hasVoted (run ver s xs) v" by (rule run_frame)
next
  assume ok: "exec ver \<lparr>sender = v, timestamp = t, call = CastVote vh wh att ex\<rparr> s = (Success, s1)"
  note pre = castVote_success [OF ok]
  show "\<not> hasVoted s v" by (rule pre)
  show voted: "hasVoted s1 v" by (simp add: pre(4))
  have "hasVoted (run ver s1 xs) v" and "initialized (run ver s1 xs)"
    and "votingEndTime (run ver s1 xs) = votingEndTime s"
    using voted pre(6,7) by (simp_all add: run_frame)
  then show "exec ver \<lparr>sender = v, timestamp = t', call = CastVote vh' wh' att' ex'\<rparr> (run ver s1 xs)
        = (Failure (if t' < votingEndTime s then AlreadyVoted else VotingClosed), run ver s1 xs)"
    using castVote_again [of "run ver s1 xs" v ver t' vh' wh' att' ex'] by simp
qed

theorem one_vote_per_voter_witness:
  "successes mockVerifier 1 ballot0
     [Call initTx, Call adminVoteTx, EndOfTransaction, Call lateVoteTx] \<le> 1 \<and>
   hasVoted (step mockVerifier ballot1 adminVoteTx) 1 \<and>
   exec mockVerifier \<lparr>sender = 1, timestamp = 3000, call = CastVote 257 259 [7] [9]\<rparr> ballot2
     = (Failure AlreadyVoted, ballot2)"
  using one_vote_per_voter [of 100 1 1000 86400 ballot0 mockVerifier 1
      "[Call initTx, Call adminVoteTx, EndOfTransaction, Call lateVoteTx]"
      ballot1 "[EndOfTransaction]" 1500 257 259 "[7]" "[8]" "step mockVerifier ballot1 adminVoteTx"
      3000 257 259 "[7]" "[9]"]
    ballot0_deployed admin_vote_exec ballot2_admin_vote(2)
  by (simp add: adminVoteTx_def run_def ballot1_def ballot0_def)

text \<open>
  C3 as the specification words it (every later attempt fails with \<open>AlreadyVoted\<close>)
  fails: account 1 initialises the totals and votes in one transaction at time 1500, so
  that the vote is accepted, and tries again at the deadline, time 87400; the second
  call fails with \<open>VotingClosed\<close>.
\<close>

theorem revote_after_deadline_counterexample:
  "constructor 100 1 1000 86400 = Inr ballot0 \<and>
   exec mockVerifier initTx ballot0 = (Success, ballot1) \<and>
   fst (exec mockVerifier adminVoteTx ballot1) = Success \<and>
   endTransaction (step mockVerifier ballot1 adminVoteTx) = ballot2 \<and>
   sender lateVoteTx = sender adminVoteTx \<and>
   exec mockVerifier lateVoteTx ballot2 = (Failure VotingClosed, ballot2) \<and>
   fst (exec mockVerifier lateVoteTx ballot2) \<noteq> Failure AlreadyVoted"
  using ballot0_deployed ballot1_init ballot2_admin_vote ballot2_late
  by (simp add: lateVoteTx_def adminVoteTx_def)

subsection \<open>C4: Scenario A\<close>

text \<open>
  C4: what a successful vote adds to the totals is \<open>castVote_accumulates\<close> above:
  \<open>v * w\<close> to the yes-total and \<open>(1 - v) * w\<close> to the no-total, modulo \<open>2 ^ 8\<close>. But
  Scenario A does not run in the code: \<^verbatim>\<open>init\<close> stores the two encryptions of zero
  without granting the contract access to them (\<^verbatim>\<open>castVote\<close> does call
  \<^verbatim>\<open>FHE.allowThis\<close> on the totals it writes), so once the transaction of \<^verbatim>\<open>init\<close> has
  ended, every \<^verbatim>\<open>castVote\<close> that reaches the addition (before the deadline, with accepted
  ciphertexts, whoever the caller is) reverts with \<open>ACLNotAllowed\<close>, and the totals stay
  encryptions of zero.
\<close>

theorem vote_after_init_reverts:
  assumes "constructor this a0 t0 d = Inr s0" and "t < votingEndTime s0"
    and "ver vh att a = Some v" and "ver wh att a = Some w"
  shows "fst (exec ver \<lparr>sender = a0, timestamp = t1, call = Init\<rparr> s0) = Success \<and>
         getEncryptedTally (step ver s0 \<lparr>sender = a0, timestamp = t1, call = Init\<rparr>)
           = (Trivial 0, Trivial 0) \<and>
         exec ver \<lparr>sender = a, timestamp = t, call = CastVote vh wh att ex\<rparr>
             (endTransaction (step ver s0 \<lparr>sender = a0, timestamp = t1, call = Init\<rparr>))
           = (Failure ACLNotAllowed,
              endTransaction (step ver s0 \<lparr>sender = a0, timestamp = t1, call = Init\<rparr>))"
proof -
  note fresh = deployed_fresh [OF assms(1)]
  define s1 where "s1 = step ver s0 \<lparr>sender = a0, timestamp = t1, call = Init\<rparr>"
  have init: "exec ver \<lparr>sender = a0, timestamp = t1, call = Init\<rparr> s0
      = (Success, s0\<lparr>totalYesVotes := Trivial 0, totalNoVotes := Trivial 0, initialized := True,
                        fhe := allowTransient (Trivial 0) (fhe s0)\<rparr>)"
    using fresh by (simp add: init_exec)
  then have s1: "s1 = s0\<lparr>totalYesVotes := Trivial 0, totalNoVotes := Trivial 0, initialized := True,
                        fhe := allowTransient (Trivial 0) (fhe s0)\<rparr>"
    by (simp add: s1_def step_def)
  have t: "tally (thisAddress s0) (Input vh v) (Input wh w) (Trivial 0) (Trivial 0)
             (verified vh v wh w \<lparr>acl = {}, decryptable = {}, transient = {}\<rparr>) = Inl ACLNotAllowed"
    by (simp add: tally_def verified_def fhe_defs)
  have "fst (exec ver \<lparr>sender = a, timestamp = t, call = CastVote vh wh att ex\<rparr> (endTransaction s1))
          = Failure ACLNotAllowed"
    using assms(2-4) fresh t
    by (simp add: castVote_receipt s1 endTransaction_def allowTransient_def)
  then have "exec ver \<lparr>sender = a, timestamp = t, call = CastVote vh wh att ex\<rparr> (endTransaction s1)
          = (Failure ACLNotAllowed, endTransaction s1)"
    by (rule exec_Failure_eq)
  moreover have "getEncryptedTally s1 = (Trivial 0, Trivial 0)"
    by (simp add: s1 getEncryptedTally_def)
  ultimately show ?thesis using init by (simp add: s1_def)
qed

theorem vote_after_init_reverts_witness:
  "constructor 100 1 1000 86400 = Inr ballot0 \<and>
   exec mockVerifier initTx ballot0 = (Success, ballot1) \<and>
   exec mockVerifier voteTx (endTransaction ballot1) = (Failure ACLNotAllowed, endTransaction ballot1) \<and>
   plain (totalYesVotes (step mockVerifier (endTransaction ballot1) voteTx)) = 0"
  using vote_after_init_reverts [of 100 1 1000 86400 ballot0 2000 mockVerifier 1 "[7]" 2 1 5 5 1500 "[9]"]
    ballot0_deployed ballot1_init
  by (simp add: step_def initTx_def voteTx_def mockVerifier_def ballot0_def ballot1_def)

subsection \<open>C5: the deadline\<close>

text \<open>
  C5: every \<^verbatim>\<open>castVote\<close> call at a time greater than or equal to \<open>votingEndTime\<close> fails
  with \<open>VotingClosed\<close>, for every caller, whether or not the caller is registered or has
  voted and whether or not the totals have been initialised.
\<close>

theorem castVote_deadline:
  "votingEndTime s \<le> t \<Longrightarrow>
     castVote ver a t vh wh att ex s = Reverted VotingClosed s \<and>
     exec ver \<lparr>sender = a, timestamp = t, call = CastVote vh wh att ex\<rparr> s = (Failure VotingClosed, s)"
  by (auto simp: exec_def transact_def castVote_def votingOpen_def)

theorem castVote_deadline_witness:
  "exec mockVerifier \<lparr>sender = 2, timestamp = 87400, call = CastVote 1 5 [7] [9]\<rparr> ballot0
     = (Failure VotingClosed, ballot0) \<and>
   exec mockVerifier \<lparr>sender = 1, timestamp = 99999, call = CastVote 257 259 [7] [9]\<rparr> ballot2
     = (Failure VotingClosed, ballot2) \<and>
   exec mockVerifier \<lparr>sender = 5, timestamp = 87401, call = CastVote 2 1 [7] []\<rparr>
       (endTransaction ballot1)
     = (Failure VotingClosed, endTransaction ballot1)"
  using castVote_deadline [of ballot0 87400 mockVerifier 2 1 5 "[7]" "[9]"]
    castVote_deadline [of ballot2 99999 mockVerifier 1 257 259 "[7]" "[9]"]
    castVote_deadline [of "endTransaction ballot1" 87401 mockVerifier 5 2 1 "[7]" "[]"]
  by (simp add: ballot0_def ballot1_def ballot2_def)

subsection \<open>C6: initialising the totals\<close>

text \<open>
  C6: \<^verbatim>\<open>init\<close> is callable only by the admin: the modifier \<^verbatim>\<open>onlyAdmin\<close> runs first,
  so for any other caller the call fails with \<open>Unauthorized\<close>, whether or not the totals
  are initialised. A call of the admin on a contract that is not initialised succeeds, sets
  both totals to a trivial encryption of zero and sets \<open>initialized\<close>. After a successful
  call, whatever calls and ends of transactions follow, a further call fails and leaves
  both totals unchanged: with \<open>AlreadyInitialized\<close> when the admin makes it, and with
  \<open>Unauthorized\<close>, by the precedence of the modifier, when another account does.
\<close>

theorem init_one_shot:
  "(a \<noteq> admin s \<longrightarrow> exec ver \<lparr>sender = a, timestamp = t, call = Init\<rparr> s = (Failure Unauthorized, s)) \<and>
   (a = admin s \<and> \<not> initialized s \<longrightarrow>
      exec ver \<lparr>sender = a, timestamp = t, call = Init\<rparr> s
        = (Success, s\<lparr>totalYesVotes := Trivial 0, totalNoVotes := Trivial 0, initialized := True,
                        fhe := allowTransient (Trivial 0) (fhe s)\<rparr>) \<and>
      plain (Trivial 0) = 0) \<and>
   (exec ver \<lparr>sender = a, timestamp = t, call = Init\<rparr> s = (Success, s1) \<longrightarrow>
      a = admin s \<and> \<not> initialized s \<and> initialized s1 \<and>
      getEncryptedTally s1 = (Trivial 0, Trivial 0) \<and>
      exec ver \<lparr>sender = b, timestamp = t', call = Init\<rparr> (run ver s1 xs)
        = (Failure (if b = admin s then AlreadyInitialized else Unauthorized), run ver s1 xs) \<and>
      getEncryptedTally (step ver (run ver s1 xs) \<lparr>sender = b, timestamp = t', call = Init\<rparr>)
        = getEncryptedTally (run ver s1 xs))"
proof (intro conjI impI)
  assume "a \<noteq> admin s"
  then show "exec ver \<lparr>sender = a, timestamp = t, call = Init\<rparr> s = (Failure Unauthorized, s)"
    by (simp add: init_exec)
next
  assume "a = admin s \<and> \<not> initialized s"
  then show "exec ver \<lparr>sender = a, timestamp = t, call = Init\<rparr> s
        = (Success, s\<lparr>totalYesVotes := Trivial 0, totalNoVotes := Trivial 0, initialized := True,
                        fhe := allowTransient (Trivial 0) (fhe s)\<rparr>)"
    by (simp add: init_exec)
next
  show "plain (Trivial 0) = 0" by simp
next
  assume ok: "exec ver \<lparr>sender = a, timestamp = t, call = Init\<rparr> s = (Success, s1)"
  then have pre: "a = admin s" "\<not> initialized s"
    and s1: "s1 = s\<lparr>totalYesVotes := Trivial 0, totalNoVotes := Trivial 0, initialized := True,
                      fhe := allowTransient (Trivial 0) (fhe s)\<rparr>"
    by (auto simp: init_exec split: if_splits)
  show "a = admin s" and "\<not> initialized s" by (rule pre)+
  show i1: "initialized s1" by (simp add: s1)
  show "getEncryptedTally s1 = (Trivial 0, Trivial 0)"
    by (simp add: s1 getEncryptedTally_def)
  have "admin s1 = admin s" by (simp add: s1)
  then have "initialized (run ver s1 xs)" and "admin (run ver s1 xs) = admin s"
    using i1 by (simp_all add: run_frame)
  then have again: "exec ver \<lparr>sender = b, timestamp = t', call = Init\<rparr> (run ver s1 xs)
        = (Failure (if b = admin s then AlreadyInitialized else Unauthorized), run ver s1 xs)"
    by (simp add: init_exec)
  then show "exec ver \<lparr>sender = b, timestamp = t', call = Init\<rparr> (run ver s1 xs)
        = (Failure (if b = admin s then AlreadyInitialized else Unauthorized), run ver s1 xs)" .
  from again
  show "getEncryptedTally (step ver (run ver s1 xs) \<lparr>sender = b, timestamp = t', call = Init\<rparr>)
        = getEncryptedTally (run ver s1 xs)"
    by (simp add: step_def)
qed

theorem init_one_shot_witness:
  "exec mockVerifier \<lparr>sender = 2, timestamp = 1500, call = Init\<rparr> ballot0 = (Failure Unauthorized, ballot0) \<and>
   exec mockVerifier initTx ballot0 = (Success, ballot1) \<and>
   getEncryptedTally ballot1 = (Trivial 0, Trivial 0) \<and> initialized ballot1 \<and>
   exec mockVerifier \<lparr>sender = 1, timestamp = 5000, call = Init\<rparr>
       (run mockVerifier ballot1 [Call adminVoteTx, EndOfTransaction])
     = (Failure AlreadyInitialized, run mockVerifier ballot1 [Call adminVoteTx, EndOfTransaction]) \<and>
   exec mockVerifier \<lparr>sender = 2, timestamp = 5000, call = Init\<rparr>
       (run mockVerifier ballot1 [Call adminVoteTx, EndOfTransaction])
     = (Failure Unauthorized, run mockVerifier ballot1 [Call adminVoteTx, EndOfTransaction])"
proof -
  have step1: "exec mockVerifier initTx ballot0 = (Success, ballot1)"
    using init_one_shot [of 1 ballot0 mockVerifier 1500]
    by (simp add: initTx_def ballot0_def ballot1_def allowTransient_def)
  show ?thesis
    using init_one_shot [of 2 ballot0 mockVerifier 1500] step1
      init_one_shot [of 1 ballot0 mockVerifier 1500 ballot1 1 5000 "[Call adminVoteTx, EndOfTransaction]"]
      init_one_shot [of 1 ballot0 mockVerifier 1500 ballot1 2 5000 "[Call adminVoteTx, EndOfTransaction]"]
    by (simp add: initTx_def ballot0_def)
qed

subsection \<open>C7: who has voted is registered\<close>

text \<open>
  C7: in every reachable state, for every principal \<open>v\<close>, \<open>hasVoted v\<close> implies
  \<open>isRegistered v\<close>, and every call preserves the implication. Only
  \<^verbatim>\<open>castVote\<close> writes \<open>hasVoted\<close> and only \<^verbatim>\<open>registerVoter\<close> and \<^verbatim>\<open>castVote\<close>
  write \<open>isRegistered\<close>; and \<^verbatim>\<open>castVote\<close> sets \<open>isRegistered\<close> first: it marks the
  vote on the storage that the auto-registration step left, where the caller is
  registered and \<open>hasVoted\<close> is still as before.
\<close>

theorem voted_implies_registered:
  "(reachable ver s \<longrightarrow> hasVoted s v \<longrightarrow> isRegistered s v) \<and>
   ((\<forall>u. hasVoted s u \<longrightarrow> isRegistered s u) \<longrightarrow>
      (\<forall>u. hasVoted (step ver s x) u \<longrightarrow> isRegistered (step ver s x) u)) \<and>
   (\<not> is_castVote (call x) \<longrightarrow> hasVoted (step ver s x) = hasVoted s) \<and>
   (\<not> is_castVote (call x) \<and> \<not> is_registerVoter (call x) \<longrightarrow>
      isRegistered (step ver s x) = isRegistered s) \<and>
   (castVote_body ver a vh wh att ex s = Returned s' \<longrightarrow>
      (\<exists>v w yes' no' c'. ver vh att a = Some v \<and> ver wh att a = Some w \<and>
          tally (thisAddress s) (Input vh v) (Input wh w) (totalYesVotes s) (totalNoVotes s)
            (verified vh v wh w (fhe s)) = Inr ((yes', no'), c') \<and>
          s' = (autoRegister a ex s)\<lparr>totalYesVotes := yes', totalNoVotes := no',
                 hasVoted := (hasVoted (autoRegister a ex s))(a := True),
                 events := events (autoRegister a ex s) @ [VoteCast a ex],
                 fhe := c'\<lparr>acl := insert (no', thisAddress s)
                                       (insert (yes', thisAddress s) (acl c'))\<rparr>\<rparr>) \<and>
      isRegistered (autoRegister a ex s) a \<and> hasVoted (autoRegister a ex s) = hasVoted s)"
proof (intro conjI impI allI)
  assume "reachable ver s" and "hasVoted s v"
  then show "isRegistered s v" using inv_reachable by blast
next
  fix u
  assume "\<forall>u. hasVoted s u \<longrightarrow> isRegistered s u" and "hasVoted (step ver s x) u"
  then show "isRegistered (step ver s x) u" using inv_step [of s u ver x] by blast
next
  assume "\<not> is_castVote (call x)"
  then show "hasVoted (step ver s x) = hasVoted s" by (rule flags_written_by)
next
  assume "\<not> is_castVote (call x) \<and> \<not> is_registerVoter (call x)"
  then show "isRegistered (step ver s x) = isRegistered s" by (simp add: flags_written_by)
next
  have reg: "hasVoted (autoRegister a ex s) = hasVoted s" by (simp add: autoRegister_def)
  assume "castVote_body ver a vh wh att ex s = Returned s'"
  from castVote_body_Returned [OF this]
  show "\<exists>v w yes' no' c'. ver vh att a = Some v \<and> ver wh att a = Some w \<and>
          tally (thisAddress s) (Input vh v) (Input wh w) (totalYesVotes s) (totalNoVotes s)
            (verified vh v wh w (fhe s)) = Inr ((yes', no'), c') \<and>
          s' = (autoRegister a ex s)\<lparr>totalYesVotes := yes', totalNoVotes := no',
                 hasVoted := (hasVoted (autoRegister a ex s))(a := True),
                 events := events (autoRegister a ex s) @ [VoteCast a ex],
                 fhe := c'\<lparr>acl := insert (no', thisAddress s)
                                       (insert (yes', thisAddress s) (acl c'))\<rparr>\<rparr>"
    unfolding reg by blast
next
  show "isRegistered (autoRegister a ex s) a" by (simp add: autoRegister_def)
next
  show "hasVoted (autoRegister a ex s) = hasVoted s" by (simp add: autoRegister_def)
qed

theorem voted_implies_registered_witness:
  "reachable mockVerifier ballot2 \<and> hasVoted ballot2 1 \<and> isRegistered ballot2 1"
  using voted_implies_registered [of mockVerifier ballot2 1] ballot2_reachable
  by (simp add: ballot2_def)

subsection \<open>C8: auto-registration\<close>



subsection \<open>C9: registration is not gated by the round\<close>

text \<open>
  C9: \<^verbatim>\<open>registerVoter\<close> checks neither the deadline nor \<open>initialized\<close>: at every time
  and in every state, a call of the admin with a nonzero voter that is not yet registered
  succeeds, registers the voter and emits the registration event.
\<close>

theorem registerVoter_ungated:
  assumes "a = admin s" and "voter \<noteq> 0" and "\<not> isRegistered s voter"
  shows "exec ver \<lparr>sender = a, timestamp = t, call = RegisterVoter voter ex\<rparr> s
           = (Success, s\<lparr>isRegistered := (isRegistered s)(voter := True),
                          events := events s @ [VoterRegistered voter ex]\<rparr>)"
  using assms by (simp add: exec_def transact_def other_defs)

theorem registerVoter_ungated_witness:
  "\<not> initialized ballot0 \<and> votingEndTime ballot0 \<le> 90000 \<and>
   exec mockVerifier \<lparr>sender = 1, timestamp = 90000, call = RegisterVoter 4 [3]\<rparr> ballot0
     = (Success, ballot0\<lparr>isRegistered := (isRegistered ballot0)(4 := True),
                          events := events ballot0 @ [VoterRegistered 4 [3]]\<rparr>)"
  using registerVoter_ungated [of 1 ballot0 4 mockVerifier 90000 "[3]"]
  by (simp add: ballot0_def)

subsection \<open>C10: tally access\<close>




end
